theory Spec2Isabelle
  imports Main
begin

section \<open>JavaScript values\<close>

text \<open>
  The store of \<^verbatim>\<open>store.ts\<close> is a JavaScript object whose own properties are its
  entries. Values are modelled as a tree: primitives, arrays, plain objects, functions
  of no argument (the lazily evaluated producers) and Store instances. An object is the
  list of its own enumerable properties in the order \<^verbatim>\<open>Object.entries\<close> lists them.
  A Store carries, besides its properties, the abilities that \<^verbatim>\<open>@Restrict\<close> attached
  to property names of its class. Numbers are restricted to integers. Objects are
  values, not references: \<^verbatim>\<open>write\<close> and \<^verbatim>\<open>writeEntries\<close> never store a reference to
  an object they are given (an object is flattened, and what is written is not of type
  object), and a Store under a key is part of the store that holds it. A Store shared
  between two holders, as a constructor argument can be, is not modelled.
\<close>

text \<open>
  Modelled from the spec: the types \<^verbatim>\<open>JSONPrimitive\<close>, \<^verbatim>\<open>JSONArray\<close> and
  \<^verbatim>\<open>JSONObject\<close> of \<^verbatim>\<open>json-types\<close>, which is not among the sources. A primitive
  is a string, a number, a boolean or \<^verbatim>\<open>null\<close>; an array is a sequence of values; an
  object maps string keys to values. The permissions are those of \<^verbatim>\<open>Ability.ts\<close>:
  \<^verbatim>\<open>"r"\<close>, \<^verbatim>\<open>"w"\<close>, \<^verbatim>\<open>"rw"\<close> and \<^verbatim>\<open>"none"\<close>.
\<close>

datatype Permission = Pr | Pw | Prw | Pnone

datatype val =
    VUndef
  | VNull
  | VBool bool
  | VNum int
  | VStr string
  | VArr "val list"
  | VObj "(string \<times> val) list"
  | VFun "unit \<Rightarrow> val"
  | VStore "(string \<times> Permission) list" "(string \<times> val) list"

fun Permission_str :: "Permission \<Rightarrow> string" where
  "Permission_str Pr = ''r''"
| "Permission_str Pw = ''w''"
| "Permission_str Prw = ''rw''"
| "Permission_str Pnone = ''none''"

text \<open>The \<^verbatim>\<open>typeof\<close> operator.\<close>

fun typeof :: "val \<Rightarrow> string" where
  "typeof VUndef = ''undefined''"
| "typeof VNull = ''object''"
| "typeof (VBool b) = ''boolean''"
| "typeof (VNum n) = ''number''"
| "typeof (VStr s) = ''string''"
| "typeof (VArr xs) = ''object''"
| "typeof (VObj ps) = ''object''"
| "typeof (VFun f) = ''function''"
| "typeof (VStore m ps) = ''object''"

text \<open>Truthiness, as \<^verbatim>\<open>!x\<close> reads it.\<close>

fun truthy :: "val \<Rightarrow> bool" where
  "truthy VUndef = False"
| "truthy VNull = False"
| "truthy (VBool b) = b"
| "truthy (VNum n) = (n \<noteq> 0)"
| "truthy (VStr s) = (s \<noteq> [])"
| "truthy (VArr xs) = True"
| "truthy (VObj ps) = True"
| "truthy (VFun f) = True"
| "truthy (VStore m ps) = True"

subsection \<open>Property order\<close>

text \<open>
  JavaScript lists the own properties of an object with the array indices first, in
  ascending numeric order, and then the other string keys in the order of their
  creation. An array index is a canonical decimal numeral below \<open>2\<^sup>3\<^sup>2 - 1\<close>.
\<close>

definition is_digit :: "char \<Rightarrow> bool" where
  "is_digit c = (c \<in> set ''0123456789'')"

definition decimal :: "string \<Rightarrow> int" where
  "decimal k = foldl (\<lambda>n c. 10 * n + (of_char c - 48)) 0 k"

definition array_index :: "string \<Rightarrow> int option" where
  "array_index k =
     (if k \<noteq> [] \<and> list_all is_digit k \<and> (hd k \<noteq> CHR ''0'' \<or> k = ''0'')
         \<and> decimal k \<le> 4294967294
      then Some (decimal k) else None)"

fun nat_str :: "nat \<Rightarrow> string" where
  "nat_str n =
     (if n < 10 then [char_of (48 + n)] else nat_str (n div 10) @ [char_of (48 + n mod 10)])"

declare nat_str.simps [simp del]

fun has_key :: "(string \<times> val) list \<Rightarrow> string \<Rightarrow> bool" where
  "has_key [] k = False"
| "has_key (p # ps) k = (fst p = k \<or> has_key ps k)"

fun replace :: "(string \<times> val) list \<Rightarrow> string \<Rightarrow> val \<Rightarrow> (string \<times> val) list" where
  "replace [] k v = []"
| "replace (p # ps) k v = (if fst p = k then (k, v) # ps else p # replace ps k v)"

fun insert_index :: "int \<Rightarrow> string \<Rightarrow> val \<Rightarrow> (string \<times> val) list \<Rightarrow> (string \<times> val) list" where
  "insert_index i k v [] = [(k, v)]"
| "insert_index i k v (p # ps) =
     (case array_index (fst p) of
        Some j \<Rightarrow> if j < i then p # insert_index i k v ps else (k, v) # p # ps
      | None \<Rightarrow> (k, v) # p # ps)"

text \<open>
  The assignment \<^verbatim>\<open>obj[k] = v\<close> on own data properties: an existing property keeps its
  place, a new one is created where the order above puts it.
\<close>

definition obj_set :: "(string \<times> val) list \<Rightarrow> string \<Rightarrow> val \<Rightarrow> (string \<times> val) list" where
  "obj_set ps k v =
     (if has_key ps k then replace ps k v
      else (case array_index k of
              Some i \<Rightarrow> insert_index i k v ps
            | None \<Rightarrow> ps @ [(k, v)]))"

text \<open>The read \<^verbatim>\<open>obj[k]\<close> of an own property: \<^verbatim>\<open>undefined\<close> when there is none.\<close>

definition obj_get :: "(string \<times> val) list \<Rightarrow> string \<Rightarrow> val" where
  "obj_get ps k = (case map_of ps k of Some v \<Rightarrow> v | None \<Rightarrow> VUndef)"

text \<open>The object spread \<^verbatim>\<open>{...a, ...b}\<close>.\<close>

definition spread :: "(string \<times> val) list \<Rightarrow> (string \<times> val) list \<Rightarrow> (string \<times> val) list" where
  "spread a b = foldl (\<lambda>acc p. obj_set acc (fst p) (snd p)) (foldl (\<lambda>acc p. obj_set acc (fst p) (snd p)) [] a) b"

text \<open>
  \<^verbatim>\<open>Object.entries\<close>: the own enumerable properties of an object, the elements of an
  array under their indices, the characters of a string; nothing for a number, a
  boolean or a function; a TypeError for \<^verbatim>\<open>null\<close> and \<^verbatim>\<open>undefined\<close>.
\<close>

datatype error = AccessDenied | TypeError | NotModelled

fun Object_entries :: "val \<Rightarrow> error + (string \<times> val) list" where
  "Object_entries VUndef = Inl TypeError"
| "Object_entries VNull = Inl TypeError"
| "Object_entries (VBool b) = Inr []"
| "Object_entries (VNum n) = Inr []"
| "Object_entries (VStr s) = Inr (zip (map nat_str [0..<length s]) (map (\<lambda>c. VStr [c]) s))"
| "Object_entries (VArr xs) = Inr (zip (map nat_str [0..<length xs]) xs)"
| "Object_entries (VObj ps) = Inr ps"
| "Object_entries (VFun f) = Inr []"
| "Object_entries (VStore m ps) = Inr ps"

text \<open>\<^verbatim>\<open>path.split(":")\<close>: never the empty list.\<close>

fun split_colon :: "string \<Rightarrow> string list" where
  "split_colon [] = [[]]"
| "split_colon (c # cs) =
     (if c = CHR '':'' then [] # split_colon cs
      else (case split_colon cs of w # ws \<Rightarrow> (c # w) # ws | [] \<Rightarrow> [[c]]))"

section \<open>Ability\<close>

text \<open>
  \<^verbatim>\<open>Helpers/Ability.ts\<close>. The field holds whatever value the constructor was given:
  the store builds an Ability from its \<^verbatim>\<open>defaultPolicy\<close> property, which a write can
  set to any value.
\<close>

record Ability =
  permission :: val

definition canRead :: "Ability \<Rightarrow> bool" where
  "canRead a = (permission a = VStr ''r'' \<or> permission a = VStr ''rw'')"

definition canWrite :: "Ability \<Rightarrow> bool" where
  "canWrite a = (permission a = VStr ''w'' \<or> permission a = VStr ''rw'')"

section \<open>Store\<close>

text \<open>
  A Store instance: \<open>metadata\<close> is the table of abilities that \<^verbatim>\<open>@Restrict\<close> defined
  for property names of the instance's class (\<^verbatim>\<open>Reflect.getMetadata\<close> finds them
  through the prototype), \<open>props\<close> the own properties. The class field
  \<^verbatim>\<open>defaultPolicy\<close> is one of the own properties, the first that the constructor
  creates.
\<close>

record Store =
  metadata :: "(string \<times> Permission) list"
  props :: "(string \<times> val) list"

definition Store_val :: "Store \<Rightarrow> val" where
  "Store_val s = VStore (metadata s) (props s)"

definition new_Store :: Store where
  "new_Store = \<lparr>metadata = [], props = [(''defaultPolicy'', VStr ''rw'')]\<rparr>"

definition get :: "Store \<Rightarrow> string \<Rightarrow> val" where
  "get s k = obj_get (props s) k"

definition set_prop :: "Store \<Rightarrow> string \<Rightarrow> val \<Rightarrow> Store" where
  "set_prop s k v = s\<lparr>props := obj_set (props s) k v\<rparr>"

text \<open>
  \<^verbatim>\<open>this[key]\<close> looks a name up through the prototype chain when the object has no
  own property of that name. The chain of a Store ends in \<^verbatim>\<open>Store.prototype\<close> and
  \<^verbatim>\<open>Object.prototype\<close>, and \<open>inherited\<close> lists their members. All of them are
  functions but \<^verbatim>\<open>__proto__\<close>, the accessor that gives and sets the prototype of the
  object.
\<close>

definition inherited :: "string \<Rightarrow> bool" where
  "inherited k = (k \<in> set [''constructor'', ''getAbilityMetadata'', ''deepReading'',
     ''deepWriting'', ''deepCreatingPathFromJSONObject'', ''allowedToRead'',
     ''allowedToWrite'', ''read'', ''write'', ''writeEntries'', ''entries'',
     ''__defineGetter__'', ''__defineSetter__'', ''hasOwnProperty'', ''__lookupGetter__'',
     ''__lookupSetter__'', ''isPrototypeOf'', ''propertyIsEnumerable'', ''toString'',
     ''valueOf'', ''__proto__'', ''toLocaleString''])"

definition own :: "Store \<Rightarrow> string \<Rightarrow> bool" where
  "own s k = has_key (props s) k"

definition getAbilityMetadata :: "Store \<Rightarrow> string \<Rightarrow> Ability" where
  "getAbilityMetadata s key =
     (case map_of (metadata s) key of
        Some p \<Rightarrow> \<lparr>permission = VStr (Permission_str p)\<rparr>
      | None \<Rightarrow> \<lparr>permission = get s ''defaultPolicy''\<rparr>)"

definition allowedToRead :: "Store \<Rightarrow> string \<Rightarrow> bool" where
  "allowedToRead s key = canRead (getAbilityMetadata s key)"

definition allowedToWrite :: "Store \<Rightarrow> string \<Rightarrow> bool" where
  "allowedToWrite s key = canWrite (getAbilityMetadata s key)"

text \<open>
  \<^verbatim>\<open>entries\<close>: the reduction over \<^verbatim>\<open>Object.entries(this)\<close>, each step a spread of the
  accumulator and of what the local function \<^verbatim>\<open>entriesOrEmptyObject\<close> returns for the
  entry.
\<close>

function entries :: "Store \<Rightarrow> (string \<times> val) list"
  and entriesOrEmptyObject :: "Store \<Rightarrow> string \<Rightarrow> val \<Rightarrow> (string \<times> val) list" where
  "entries s =
     foldl (\<lambda>acc entry. spread acc (entriesOrEmptyObject s (fst entry) (snd entry)))
       [] (props s)"
| "entriesOrEmptyObject s key v =
     (if \<not> allowedToRead s key then []
      else (case v of
              VStore m ps \<Rightarrow> [(key, VObj (entries \<lparr>metadata = m, props = ps\<rparr>))]
            | _ \<Rightarrow> [(key, v)]))"
  by pat_completeness auto
termination
proof (relation "measure (\<lambda>x. case x of
    Inl s \<Rightarrow> 2 * size_list (\<lambda>p. size (snd p)) (props s) + 1
  | Inr (s, key, v) \<Rightarrow> 2 * size v)")
  show "wf (measure (\<lambda>x. case x of
      Inl s \<Rightarrow> 2 * size_list (\<lambda>p. size (snd p)) (props s) + 1
    | Inr (s, key, v) \<Rightarrow> 2 * size v))"
    by simp
next
  fix s :: Store and entry :: "string \<times> val" and acc :: "(string \<times> val) list"
  assume "entry \<in> set (props s)"
  then have "size (snd entry) \<le> size_list (\<lambda>p. size (snd p)) (props s)"
    using size_list_estimation' [of entry "props s" "size (snd entry)" "\<lambda>p. size (snd p)"]
    by simp
  then show "(Inr (s, fst entry, snd entry), Inl s) \<in> measure (\<lambda>x. case x of
      Inl s \<Rightarrow> 2 * size_list (\<lambda>p. size (snd p)) (props s) + 1
    | Inr (s, key, v) \<Rightarrow> 2 * size v)"
    by (cases entry) simp
next
  fix s :: Store and key :: string and v m ps
  assume "v = VStore m ps"
  have "size_list (\<lambda>p. size (snd p)) ps \<le> size_list (size_prod (\<lambda>_. 0) size) ps"
    by (rule size_list_pointwise) (auto simp: size_prod_simp)
  with \<open>v = VStore m ps\<close>
  show "(Inl \<lparr>metadata = m, props = ps\<rparr>, Inr (s, key, v)) \<in> measure (\<lambda>x. case x of
      Inl s \<Rightarrow> 2 * size_list (\<lambda>p. size (snd p)) (props s) + 1
    | Inr (s, key, v) \<Rightarrow> 2 * size v)"
    by simp
qed

declare entries.simps [simp del] entriesOrEmptyObject.simps [simp del]

text \<open>
  The prototype of a store. An instance of a class that extends Store (a store with
  annotations) has the prototype object of its class: an instance of Store as
  \<^verbatim>\<open>instanceof\<close> sees it, with the annotations of the class and no enumerable property
  of its own. The prototype of an instance of Store itself, and that of the prototype
  object of a class, is \<^verbatim>\<open>Store.prototype\<close>: it is not an instance of Store, and no key
  has an ability or a policy there. As a value it is an object without enumerable
  properties. An instance always has the own property \<^verbatim>\<open>defaultPolicy\<close>, which the
  constructor creates and nothing deletes; a store with annotations and without that
  property stands for the prototype object of a class.
  \<open>prototype_store\<close> is the prototype as the \<^verbatim>\<open>this\<close> of a method, \<open>prototype_of\<close> as a
  value.

  Two limits of this description. A class that extends Store and annotates no property
  is not told apart from Store, from which its instances differ in their prototype only.
  And the calls that the methods make on \<^verbatim>\<open>this\<close> (\<^verbatim>\<open>this.allowedToWrite\<close>,
  \<^verbatim>\<open>this.deepWriting\<close> and the like) are calls of the methods of the class: a write
  can create an own property under the name of a method, which a read or a write of
  that name then finds, but the definitions below do not replace the method by it.
\<close>

definition prototype_store :: "Store \<Rightarrow> Store" where
  "prototype_store s =
     (if metadata s \<noteq> [] \<and> own s ''defaultPolicy'' then \<lparr>metadata = metadata s, props = []\<rparr>
      else \<lparr>metadata = [], props = []\<rparr>)"

definition prototype_of :: "Store \<Rightarrow> val" where
  "prototype_of s =
     (if metadata s \<noteq> [] \<and> own s ''defaultPolicy'' then Store_val (prototype_store s)
      else VObj [])"

text \<open>
  The call \<^verbatim>\<open>this[key]()\<close> of an inherited function, with no argument, so that every
  parameter is \<^verbatim>\<open>undefined\<close>:
  \<^item> \<^verbatim>\<open>entries\<close> returns the snapshot;
  \<^item> \<^verbatim>\<open>getAbilityMetadata\<close> finds no metadata for the key \<^verbatim>\<open>undefined\<close> and returns a
    new Ability of the default policy, an object with the one property \<^verbatim>\<open>permission\<close>;
    \<^verbatim>\<open>allowedToRead\<close> and \<^verbatim>\<open>allowedToWrite\<close> return what that Ability says;
  \<^item> \<^verbatim>\<open>hasOwnProperty\<close> and \<^verbatim>\<open>propertyIsEnumerable\<close> look for the own property
    \<^verbatim>\<open>"undefined"\<close>; \<^verbatim>\<open>isPrototypeOf\<close> returns false; \<^verbatim>\<open>__lookupGetter__\<close> and
    \<^verbatim>\<open>__lookupSetter__\<close> return \<^verbatim>\<open>undefined\<close>;
  \<^item> \<^verbatim>\<open>toString\<close> returns \<^verbatim>\<open>"[object Object]"\<close>; \<^verbatim>\<open>toLocaleString\<close> calls
    \<^verbatim>\<open>this.toString()\<close>, which may be an own property; \<^verbatim>\<open>valueOf\<close> returns the store;
  \<^item> the others throw a TypeError: \<^verbatim>\<open>deepReading\<close>, \<^verbatim>\<open>deepWriting\<close>, \<^verbatim>\<open>read\<close> and
    \<^verbatim>\<open>write\<close> read a property of the path \<^verbatim>\<open>undefined\<close>,
    \<^verbatim>\<open>deepCreatingPathFromJSONObject\<close> and \<^verbatim>\<open>writeEntries\<close> call
    \<^verbatim>\<open>Object.entries(undefined)\<close>, \<^verbatim>\<open>__defineGetter__\<close> and \<^verbatim>\<open>__defineSetter__\<close> are
    given no function, and the constructor of a class cannot be called without
    \<^verbatim>\<open>new\<close>.
\<close>

definition call_inherited :: "Store \<Rightarrow> string \<Rightarrow> error + val" where
  "call_inherited s k =
     (if k = ''entries'' then Inr (VObj (entries s))
      else if k = ''getAbilityMetadata''
        then Inr (VObj [(''permission'', get s ''defaultPolicy'')])
      else if k = ''allowedToRead''
        then Inr (VBool (canRead \<lparr>permission = get s ''defaultPolicy''\<rparr>))
      else if k = ''allowedToWrite''
        then Inr (VBool (canWrite \<lparr>permission = get s ''defaultPolicy''\<rparr>))
      else if k = ''hasOwnProperty'' \<or> k = ''propertyIsEnumerable''
        then Inr (VBool (own s ''undefined''))
      else if k = ''isPrototypeOf'' then Inr (VBool False)
      else if k = ''__lookupGetter__'' \<or> k = ''__lookupSetter__'' then Inr VUndef
      else if k = ''toString'' then Inr (VStr ''[object Object]'')
      else if k = ''toLocaleString'' then
        (if own s ''toString''
         then (case get s ''toString'' of VFun f \<Rightarrow> Inr (f ()) | _ \<Rightarrow> Inl TypeError)
         else Inr (VStr ''[object Object]''))
      else if k = ''valueOf'' then Inr (Store_val s)
      else Inl TypeError)"

text \<open>
  \<^verbatim>\<open>path[0]\<close>: the first segment. (On the empty array it would be \<^verbatim>\<open>undefined\<close>,
  the property name \<^verbatim>\<open>"undefined"\<close>; \<open>split_colon\<close> never gives the empty list.)
\<close>

definition path0 :: "string list \<Rightarrow> string" where
  "path0 path = (case path of [] \<Rightarrow> ''undefined'' | k # _ \<Rightarrow> k)"

text \<open>
  The value of \<^verbatim>\<open>typeof this[key] === "function" ? this[key]() : this[key]\<close>: an own
  property first, then the prototype chain.
\<close>

definition itemToRead :: "Store \<Rightarrow> string \<Rightarrow> error + val" where
  "itemToRead s k =
     (if own s k then (case get s k of VFun f \<Rightarrow> Inr (f ()) | v \<Rightarrow> Inr v)
      else if k = ''__proto__'' then Inr (prototype_of s)
      else if inherited k then call_inherited s k
      else Inr VUndef)"

function deepReading :: "Store \<Rightarrow> string list \<Rightarrow> error + val" where
  "deepReading s path =
     (if \<not> allowedToRead s (path0 path) then Inl AccessDenied
      else
        (case itemToRead s (path0 path) of
           Inl e \<Rightarrow> Inl e
         | Inr item \<Rightarrow>
             (case item of
                VStore m ps \<Rightarrow>
                  if length path > 1 then deepReading \<lparr>metadata = m, props = ps\<rparr> (tl path)
                  else Inr item
              | _ \<Rightarrow> Inr item)))"
  by pat_completeness auto
termination
  by (relation "measure (\<lambda>(s, path). length path)") auto

declare deepReading.simps [simp del]

definition read :: "Store \<Rightarrow> string \<Rightarrow> error + val" where
  "read s path = deepReading s (split_colon path)"

text \<open>
  The values that the setter of \<^verbatim>\<open>__proto__\<close> takes as a new prototype: objects, which
  functions are too, and \<^verbatim>\<open>null\<close>. It ignores every other value.
\<close>

fun is_Object_or_null :: "val \<Rightarrow> bool" where
  "is_Object_or_null VUndef = False"
| "is_Object_or_null VNull = True"
| "is_Object_or_null (VBool b) = False"
| "is_Object_or_null (VNum n) = False"
| "is_Object_or_null (VStr s) = False"
| "is_Object_or_null (VArr xs) = True"
| "is_Object_or_null (VObj ps) = True"
| "is_Object_or_null (VFun f) = True"
| "is_Object_or_null (VStore m ps) = True"

text \<open>
  \<^verbatim>\<open>deepWriting\<close> changes the store, also when it ends with an exception: the result
  is the store after the call and the outcome. The nested store that the recursive call
  changed in place is put back under its key, where it was.

  Where the store has no own property of the name and inherits one,
  \<^verbatim>\<open>!this[pathToWrite]\<close> is false and no Store is created. An inherited function has no
  \<^verbatim>\<open>deepWriting\<close>, so that a longer path ends with a TypeError, and the assignment of
  the last segment creates an own property. For \<^verbatim>\<open>__proto__\<close> a longer path goes on in
  the prototype, which has \<^verbatim>\<open>deepWriting\<close>, and the assignment calls the setter; the
  value returned is then the prototype.

  A plain object under the segment has no \<^verbatim>\<open>deepWriting\<close> unless it has a property
  of that name; when that property is a function, the function is called, and what it
  returns is the result.

  Two situations have the outcome \<open>NotModelled\<close>, since the objects that they leave are
  not values of this model: the setter of \<^verbatim>\<open>__proto__\<close> takes the value (a function,
  since \<^verbatim>\<open>write\<close> flattens the other objects), after which the object is no Store; and
  a write that goes through \<^verbatim>\<open>__proto__\<close> changes the prototype object of a class,
  which all instances of the class share. The second needs a class whose annotations
  allow to write the segment after \<^verbatim>\<open>__proto__\<close>: in \<^verbatim>\<open>Store.prototype\<close> every write
  is denied.
\<close>

function deepWriting :: "Store \<Rightarrow> string list \<Rightarrow> val \<Rightarrow> Store \<times> (error + val)" where
  "deepWriting s path v =
     (let pathToWrite = path0 path in
      if \<not> allowedToWrite s pathToWrite then (s, Inl AccessDenied)
      else if inherited pathToWrite \<and> \<not> own s pathToWrite then
        (if pathToWrite = ''__proto__'' then
           (if length path > 1 then
              (case deepWriting (prototype_store s) (tl path) v of
                 (c, r) \<Rightarrow> if c = prototype_store s then (s, r) else (s, Inl NotModelled))
            else if is_Object_or_null v then (s, Inl NotModelled)
            else (s, Inr (prototype_of s)))
         else if length path > 1 then (s, Inl TypeError)
         else (set_prop s pathToWrite v, Inr v))
      else
        let s1 = (if \<not> truthy (get s pathToWrite) \<and> length path > 1
                  then set_prop s pathToWrite (Store_val new_Store)
                  else if length path = 1 then set_prop s pathToWrite v
                  else s)
        in if length path > 1 then
             (case get s1 pathToWrite of
                VStore m ps \<Rightarrow>
                  (case deepWriting \<lparr>metadata = m, props = ps\<rparr> (tl path) v of
                     (c, r) \<Rightarrow> (set_prop s1 pathToWrite (Store_val c), r))
              | VObj ps \<Rightarrow>
                  (case obj_get ps ''deepWriting'' of
                     VFun f \<Rightarrow> (s1, Inr (f ()))
                   | _ \<Rightarrow> (s1, Inl TypeError))
              | _ \<Rightarrow> (s1, Inl TypeError))
           else (s1, Inr (get s1 pathToWrite)))"
  by pat_completeness auto
termination
  by (relation "measure (\<lambda>(s, path, v). length path)") auto

declare deepWriting.simps [simp del]

text \<open>The template \<^verbatim>\<open>`${basePath ? `${basePath}:` : ""}${entry[0]}`\<close>.\<close>

definition childBasePath :: "string option \<Rightarrow> string \<Rightarrow> string" where
  "childBasePath basePath key =
     (case basePath of
        Some b \<Rightarrow> if b \<noteq> [] then b @ '':'' @ key else key
      | None \<Rightarrow> key)"

text \<open>
  \<^verbatim>\<open>.map(...).flat()\<close> over results: the callbacks run in order, the first exception
  ends the call, and the arrays they return are concatenated.
\<close>

fun flat :: "(error + 'a list) list \<Rightarrow> error + 'a list" where
  "flat [] = Inr []"
| "flat (r # rs) =
     (case r of
        Inl e \<Rightarrow> Inl e
      | Inr xs \<Rightarrow> (case flat rs of Inl e \<Rightarrow> Inl e | Inr ys \<Rightarrow> Inr (xs @ ys)))"

lemma Object_entries_size:
  assumes "Object_entries v = Inr es" and "(k, x) \<in> set es" and "typeof x = ''object''"
  shows "size x < size v"
proof (cases v)
  case (VStr s)
  with assms have "x \<in> set (map (\<lambda>c. VStr [c]) s)"
    by (auto dest: set_zip_rightD)
  with assms(3) show ?thesis by auto
next
  case (VArr xs)
  with assms have "x \<in> set xs" by (auto dest: set_zip_rightD)
  then have "size x \<le> size_list size xs" by (simp add: size_list_estimation')
  with VArr show ?thesis by simp
next
  case (VObj ps)
  with assms have "(k, x) \<in> set ps" by simp
  then have "size_prod (\<lambda>_. 0) size (k, x) \<le> size_list (size_prod (\<lambda>_. 0) size) ps"
    by (rule size_list_estimation') simp
  with VObj show ?thesis by simp
next
  case (VStore m ps)
  with assms have "(k, x) \<in> set ps" by simp
  then have "size_prod (\<lambda>_. 0) size (k, x) \<le> size_list (size_prod (\<lambda>_. 0) size) ps"
    by (rule size_list_estimation') simp
  with VStore show ?thesis by simp
qed (use assms in auto)

function deepCreatingPathFromJSONObject :: "string option \<Rightarrow> val \<Rightarrow> error + (string \<times> val) list" where
  "deepCreatingPathFromJSONObject basePath v =
     (case Object_entries v of
        Inl e \<Rightarrow> Inl e
      | Inr es \<Rightarrow>
          flat (map (\<lambda>entry.
                  if typeof (snd entry) \<noteq> ''object''
                  then Inr [(childBasePath basePath (fst entry), snd entry)]
                  else deepCreatingPathFromJSONObject
                         (Some (childBasePath basePath (fst entry))) (snd entry)) es))"
  by pat_completeness auto
termination
proof (relation "measure (\<lambda>(basePath, v). size v)")
  show "wf (measure (\<lambda>(basePath, v). size v))" by simp
next
  fix basePath :: "string option" and v es and entry :: "string \<times> val"
  assume "Object_entries v = Inr es" "entry \<in> set es" "\<not> typeof (snd entry) \<noteq> ''object''"
  then have "size (snd entry) < size v"
    using Object_entries_size [of v es "fst entry" "snd entry"] by simp
  then show "((Some (childBasePath basePath (fst entry)), snd entry), (basePath, v))
      \<in> measure (\<lambda>(basePath, v). size v)"
    by simp
qed

declare deepCreatingPathFromJSONObject.simps [simp del]

text \<open>
  \<^verbatim>\<open>paths.map((path) => this.write(path.path, path.value))\<close>: the callback runs on
  each pair in order, on the store as the calls before left it; the first exception
  ends the loop and leaves the store as it is then.
\<close>

fun map_paths :: "(Store \<Rightarrow> 'a \<Rightarrow> Store \<times> (error + val)) \<Rightarrow> Store \<Rightarrow> 'a list
    \<Rightarrow> Store \<times> (error + val list)" where
  "map_paths f s [] = (s, Inr [])"
| "map_paths f s (p # ps) =
     (case f s p of
        (s1, Inl e) \<Rightarrow> (s1, Inl e)
      | (s1, Inr r) \<Rightarrow>
          (case map_paths f s1 ps of
             (s2, Inl e) \<Rightarrow> (s2, Inl e)
           | (s2, Inr rs) \<Rightarrow> (s2, Inr (r # rs))))"

lemma map_paths_cong [fundef_cong]:
  assumes "s = t" and "ps = qs" and "\<And>s' p. p \<in> set qs \<Longrightarrow> f s' p = g s' p"
  shows "map_paths f s ps = map_paths g t qs"
  using assms by (induction qs arbitrary: s t ps) (auto split: prod.splits sum.splits)

lemma flat_leaves:
  assumes "flat rs = Inr xs" and "x \<in> set xs"
  shows "\<exists>ys. Inr ys \<in> set rs \<and> x \<in> set ys"
  using assms
proof (induction rs arbitrary: xs)
  case Nil
  then show ?case by simp
next
  case (Cons r rs)
  from Cons.prems(1) obtain ys zs where r: "r = Inr ys" and zs: "flat rs = Inr zs"
    and xs: "xs = ys @ zs"
    by (auto split: sum.splits)
  from Cons.prems(2) xs consider "x \<in> set ys" | "x \<in> set zs" by auto
  then show ?case
  proof cases
    case 1
    with r show ?thesis by auto
  next
    case 2
    from Cons.IH [OF zs 2] show ?thesis by auto
  qed
qed

lemma deepCreatingPathFromJSONObject_leaves:
  "deepCreatingPathFromJSONObject basePath v = Inr paths \<Longrightarrow> p \<in> set paths
    \<Longrightarrow> typeof (snd p) \<noteq> ''object''"
proof (induction basePath v arbitrary: paths rule: deepCreatingPathFromJSONObject.induct)
  case (1 basePath v)
  define F where "F = (\<lambda>entry.
                  if typeof (snd entry) \<noteq> ''object''
                  then Inr [(childBasePath basePath (fst entry), snd entry)]
                  else deepCreatingPathFromJSONObject
                         (Some (childBasePath basePath (fst entry))) (snd entry))"
  from "1.prems"(1) obtain es where es: "Object_entries v = Inr es"
    and fl: "flat (map F es) = Inr paths"
    unfolding F_def
    by (subst (asm) deepCreatingPathFromJSONObject.simps) (auto split: sum.splits)
  from flat_leaves [OF fl "1.prems"(2)] obtain ys where
    "Inr ys \<in> set (map F es)" and p: "p \<in> set ys"
    by blast
  then obtain entry where entry: "entry \<in> set es" and ys: "F entry = Inr ys"
    by (auto simp: image_iff)
  show ?case
  proof (cases "typeof (snd entry) \<noteq> ''object''")
    case True
    with ys p show ?thesis by (auto simp: F_def)
  next
    case False
    with ys have "deepCreatingPathFromJSONObject
        (Some (childBasePath basePath (fst entry))) (snd entry) = Inr ys"
      by (simp add: F_def)
    from "1.IH" [OF es entry False this p] show ?thesis .
  qed
qed

text \<open>
  \<^verbatim>\<open>write\<close> (the name is a keyword of Isabelle, hence the suffix). The result of the
  first branch is the object that was given.
\<close>

function write_store :: "Store \<Rightarrow> string \<Rightarrow> val \<Rightarrow> Store \<times> (error + val)" where
  "write_store s path v =
     (if typeof v = ''object'' then
        (case deepCreatingPathFromJSONObject (Some path) v of
           Inl e \<Rightarrow> (s, Inl e)
         | Inr paths \<Rightarrow>
             (case map_paths (\<lambda>s' p. write_store s' (fst p) (snd p)) s paths of
                (s', Inl e) \<Rightarrow> (s', Inl e)
              | (s', Inr rs) \<Rightarrow> (s', Inr v)))
      else deepWriting s (split_colon path) v)"
  by pat_completeness auto
termination
proof (relation "measure (\<lambda>(s, path, v). if typeof v = ''object'' then 1 else 0)")
  show "wf (measure (\<lambda>(s, path, v). if typeof v = ''object'' then 1 else 0))" by simp
next
  fix s :: Store and path :: string and v paths s' and p :: "string \<times> val"
  assume "typeof v = ''object''" "deepCreatingPathFromJSONObject (Some path) v = Inr paths"
    "p \<in> set paths"
  then have "typeof (snd p) \<noteq> ''object''"
    using deepCreatingPathFromJSONObject_leaves by blast
  with \<open>typeof v = ''object''\<close>
  show "((s', fst p, snd p), (s, path, v))
      \<in> measure (\<lambda>(s, path, v). if typeof v = ''object'' then 1 else 0)"
    by (cases p) simp
qed

declare write_store.simps [simp del]

definition writeEntries :: "Store \<Rightarrow> val \<Rightarrow> Store \<times> (error + unit)" where
  "writeEntries s entries' =
     (case deepCreatingPathFromJSONObject None entries' of
        Inl e \<Rightarrow> (s, Inl e)
      | Inr paths \<Rightarrow>
          (case map_paths (\<lambda>s' p. write_store s' (fst p) (snd p)) s paths of
             (s', Inl e) \<Rightarrow> (s', Inl e)
           | (s', Inr rs) \<Rightarrow> (s', Inr ())))"


section \<open>The example of the repository\<close>





section \<open>Notions used in the statements\<close>





text \<open>
  The objects of the round trip. A plain key is a property name that is one segment of
  a path and creates a property after the existing ones: it is not empty, holds no
  colon, is not an array index, and is neither \<^verbatim>\<open>defaultPolicy\<close> nor the name of an
  inherited member. A plain object has distinct plain keys, and each of its values is
  either not of type object (a string, a number, a boolean, \<^verbatim>\<open>undefined\<close>, a function)
  or a plain object that is not empty.
\<close>

definition plain_key :: "string \<Rightarrow> bool" where
  "plain_key k = (k \<noteq> [] \<and> CHR '':'' \<notin> set k \<and> \<not> inherited k \<and> k \<noteq> ''defaultPolicy''
     \<and> array_index k = None)"

fun plain_object :: "val \<Rightarrow> bool" where
  "plain_object (VObj ps) =
     (distinct (map fst ps)
      \<and> list_all (\<lambda>p. plain_key (fst p)
            \<and> (typeof (snd p) \<noteq> ''object'' \<or> snd p \<noteq> VObj [] \<and> plain_object (snd p))) ps)"
| "plain_object v = False"

text \<open>The object with the entry \<^verbatim>\<open>defaultPolicy: "rw"\<close> added at every level.\<close>

fun with_defaultPolicy :: "val \<Rightarrow> val" where
  "with_defaultPolicy (VObj ps) =
     VObj ((''defaultPolicy'', VStr ''rw'') # map (\<lambda>p. (fst p, with_defaultPolicy (snd p))) ps)"
| "with_defaultPolicy v = v"

text \<open>
  For the proof of the round trip: the pairs of the flattening with their paths as lists
  of segments, the Store that the writes build for an object, and the segments of a base
  path.
\<close>

fun tree_paths :: "val \<Rightarrow> (string list \<times> val) list" where
  "tree_paths (VObj ps) =
     concat (map (\<lambda>p. if typeof (snd p) \<noteq> ''object'' then [([fst p], snd p)]
                       else map (\<lambda>q. (fst p # fst q, snd q)) (tree_paths (snd p))) ps)"
| "tree_paths v = []"

fun store_of :: "val \<Rightarrow> val" where
  "store_of (VObj ps) =
     VStore [] ((''defaultPolicy'', VStr ''rw'') # map (\<lambda>p. (fst p, store_of (snd p))) ps)"
| "store_of v = v"

definition base_segs :: "string option \<Rightarrow> string list" where
  "base_segs base = (case base of None \<Rightarrow> [] | Some b \<Rightarrow> if b = [] then [] else split_colon b)"

section \<open>Properties of the property lists\<close>

lemma has_key_iff: "has_key ps k \<longleftrightarrow> k \<in> fst ` set ps"
  by (induction ps) auto

lemma map_of_replace: "map_of (replace ps k v) = (if has_key ps k then (map_of ps)(k \<mapsto> v) else map_of ps)"
  by (induction ps) (auto simp: fun_eq_iff)

lemma map_of_insert_index: "\<not> has_key ps k \<Longrightarrow> map_of (insert_index i k v ps) = (map_of ps)(k \<mapsto> v)"
  by (induction ps) (auto simp: fun_eq_iff split: option.splits)

lemma map_of_None_iff_has_key: "map_of ps k = None \<longleftrightarrow> \<not> has_key ps k"
  by (simp add: has_key_iff map_of_eq_None_iff)

lemma map_of_obj_set: "map_of (obj_set ps k v) = (map_of ps)(k \<mapsto> v)"
  by (auto simp: obj_set_def map_of_replace map_of_insert_index fun_eq_iff map_add_def
      map_of_None_iff_has_key [symmetric] split: option.splits)

lemma obj_get_obj_set: "obj_get (obj_set ps k v) k' = (if k' = k then v else obj_get ps k')"
  by (simp add: obj_get_def map_of_obj_set)

lemma get_set_prop: "get (set_prop s k v) k' = (if k' = k then v else get s k')"
  by (simp add: get_def set_prop_def obj_get_obj_set)

lemma metadata_set_prop: "metadata (set_prop s k v) = metadata s"
  by (simp add: set_prop_def)

lemma split_colon_not_Nil: "split_colon p \<noteq> []"
  by (induction p) (auto split: list.splits)

lemma split_colon_single: "CHR '':'' \<notin> set k \<Longrightarrow> split_colon k = [k]"
  by (induction k) auto

lemma split_colon_append: "split_colon (a @ CHR '':'' # b) = split_colon a @ split_colon b"
  by (induction a) (auto split: list.splits simp: split_colon_not_Nil)

lemma keys_replace: "fst ` set (replace ps k v) = fst ` set ps"
  by (induction ps) auto

lemma keys_insert_index: "fst ` set (insert_index i k v ps) = insert k (fst ` set ps)"
  by (induction ps) (auto split: option.splits)














section \<open>Properties of reading and writing\<close>

lemma path0_split_colon: "path0 (split_colon p) = hd (split_colon p)"
  using split_colon_not_Nil [of p] by (cases "split_colon p") (auto simp: path0_def)

lemma write_store_leaf:
  "typeof v \<noteq> ''object'' \<Longrightarrow> write_store s path v = deepWriting s (split_colon path) v"
  by (subst write_store.simps) simp

lemma replace_replace: "replace (replace ps k a) k b = replace ps k b"
  by (induction ps) auto

lemma replace_insert_index:
  "\<not> has_key ps k \<Longrightarrow> replace (insert_index i k a ps) k b = insert_index i k b ps"
  by (induction ps) (auto split: option.splits)

lemma replace_append_new:
  "\<not> has_key ps k \<Longrightarrow> replace (ps @ [(k, a)]) k b = ps @ [(k, b)]"
  by (induction ps) auto

lemma has_key_obj_set: "has_key (obj_set ps k v) k' \<longleftrightarrow> k' = k \<or> has_key ps k'"
  by (auto simp: obj_set_def has_key_iff keys_replace keys_insert_index split: option.splits)

lemma obj_set_obj_set_same: "obj_set (obj_set ps k a) k b = obj_set ps k b"
proof (cases "has_key ps k")
  case True
  then have "has_key (replace ps k a) k" by (simp add: has_key_iff keys_replace)
  with True show ?thesis by (simp add: obj_set_def replace_replace)
next
  case False
  have "has_key (obj_set ps k a) k" by (simp add: has_key_obj_set)
  with False show ?thesis
    by (auto simp: obj_set_def replace_insert_index replace_append_new split: option.splits)
qed

lemma set_prop_set_prop_same: "set_prop (set_prop s k a) k b = set_prop s k b"
  by (simp add: set_prop_def obj_set_obj_set_same)

lemma get_absent: "map_of (props s) k = None \<Longrightarrow> get s k = VUndef"
  by (simp add: get_def obj_get_def)

lemma deepWriting_Cons:
  "deepWriting s (k # rest) v =
     (if \<not> allowedToWrite s k then (s, Inl AccessDenied)
      else if inherited k \<and> \<not> own s k then
        (if k = ''__proto__'' then
           (if rest \<noteq> [] then
              (case deepWriting (prototype_store s) rest v of
                 (c, r) \<Rightarrow> if c = prototype_store s then (s, r) else (s, Inl NotModelled))
            else if is_Object_or_null v then (s, Inl NotModelled)
            else (s, Inr (prototype_of s)))
         else if rest \<noteq> [] then (s, Inl TypeError)
         else (set_prop s k v, Inr v))
      else if rest = [] then (set_prop s k v, Inr v)
      else
        let s1 = (if \<not> truthy (get s k) then set_prop s k (Store_val new_Store) else s)
        in (case get s1 k of
              VStore m ps \<Rightarrow>
                (case deepWriting \<lparr>metadata = m, props = ps\<rparr> rest v of
                   (c, r) \<Rightarrow> (set_prop s1 k (Store_val c), r))
            | VObj ps \<Rightarrow>
                (case obj_get ps ''deepWriting'' of
                   VFun f \<Rightarrow> (s1, Inr (f ()))
                 | _ \<Rightarrow> (s1, Inl TypeError))
            | _ \<Rightarrow> (s1, Inl TypeError)))"
proof (cases rest)
  case Nil
  then show ?thesis
    by (subst deepWriting.simps) (simp add: path0_def Let_def get_set_prop)
next
  case (Cons k' rest')
  then show ?thesis
    by (subst deepWriting.simps)
      (auto simp add: path0_def Let_def cong: val.case_cong split: val.splits)
qed


lemma Store_eta: "\<lparr>metadata = metadata c, props = props c\<rparr> = (c :: Store)"
  by simp








lemma write_store_batch:
  assumes "typeof v = ''object''" and "deepCreatingPathFromJSONObject (Some path) v = Inr paths"
  shows "write_store s path v =
    (case map_paths (\<lambda>s' p. deepWriting s' (split_colon (fst p)) (snd p)) s paths of
       (s', Inl e) \<Rightarrow> (s', Inl e)
     | (s', Inr rs) \<Rightarrow> (s', Inr v))"
proof -
  have "map_paths (\<lambda>s' p. write_store s' (fst p) (snd p)) s paths =
      map_paths (\<lambda>s' p. deepWriting s' (split_colon (fst p)) (snd p)) s paths"
    by (rule map_paths_cong)
      (auto simp: write_store_leaf dest: deepCreatingPathFromJSONObject_leaves [OF assms(2)])
  with assms show ?thesis
    by (subst write_store.simps) simp
qed

lemma writeEntries_batch:
  assumes "deepCreatingPathFromJSONObject None v = Inr paths"
  shows "writeEntries s v =
    (case map_paths (\<lambda>s' p. deepWriting s' (split_colon (fst p)) (snd p)) s paths of
       (s', Inl e) \<Rightarrow> (s', Inl e)
     | (s', Inr rs) \<Rightarrow> (s', Inr ()))"
proof -
  have "map_paths (\<lambda>s' p. write_store s' (fst p) (snd p)) s paths =
      map_paths (\<lambda>s' p. deepWriting s' (split_colon (fst p)) (snd p)) s paths"
    by (rule map_paths_cong)
      (auto simp: write_store_leaf dest: deepCreatingPathFromJSONObject_leaves [OF assms])
  with assms show ?thesis
    by (simp add: writeEntries_def)
qed



lemma replace_same: "map_of ps k = Some v \<Longrightarrow> replace ps k v = ps"
  by (induction ps) (auto split: if_splits)

lemma obj_set_same: "map_of ps k = Some v \<Longrightarrow> obj_set ps k v = ps"
  by (simp add: obj_set_def replace_same map_of_None_iff_has_key [symmetric])

lemma set_prop_same: "map_of (props s) k = Some v \<Longrightarrow> set_prop s k v = s"
  by (simp add: set_prop_def obj_set_same)

lemma get_Store_map_of: "get s k = VStore m ps \<Longrightarrow> map_of (props s) k = Some (VStore m ps)"
  by (auto simp: get_def obj_get_def split: option.splits)







text \<open>
  What the calls of the class do with inherited names on a new Store: \<^verbatim>\<open>toString\<close> is
  called; the setter of \<^verbatim>\<open>__proto__\<close> ignores a number, and the write returns the
  prototype; a path through \<^verbatim>\<open>__proto__\<close> is denied in \<^verbatim>\<open>Store.prototype\<close>, after the
  Store under \<^verbatim>\<open>a\<close> was created; and a function has no \<^verbatim>\<open>deepWriting\<close>.
\<close>

lemma read_toString: "read new_Store ''toString'' = Inr (VStr ''[object Object]'')"
  by code_simp

lemma write_proto_number: "write_store new_Store ''__proto__'' (VNum 5) = (new_Store, Inr (VObj []))"
  by code_simp

lemma write_through_proto:
  "write_store new_Store ''a:__proto__:x'' (VNum 1)
    = (set_prop new_Store ''a'' (Store_val new_Store), Inl AccessDenied)"
  by code_simp

lemma write_through_entries:
  "write_store new_Store ''entries:x'' (VNum 1) = (new_Store, Inl TypeError)"
  by code_simp

section \<open>Writing a plain object into a new store\<close>

lemma map_paths_map:
  "map_paths f s (map g xs) = map_paths (\<lambda>s' x. f s' (g x)) s xs"
  by (induction xs arbitrary: s) (auto split: prod.splits sum.splits)

lemma map_paths_append:
  "map_paths f s (xs @ ys) =
     (case map_paths f s xs of
        (s1, Inl e) \<Rightarrow> (s1, Inl e)
      | (s1, Inr rs) \<Rightarrow>
          (case map_paths f s1 ys of
             (s2, Inl e) \<Rightarrow> (s2, Inl e)
           | (s2, Inr rs') \<Rightarrow> (s2, Inr (rs @ rs'))))"
  by (induction xs arbitrary: s) (auto split: prod.splits sum.splits)

lemma flat_map_Inr:
  assumes "\<And>p. p \<in> set ps \<Longrightarrow> \<exists>ys. F p = Inr ys \<and> map g ys = h p"
  shows "\<exists>paths. flat (map F ps) = Inr paths \<and> map g paths = concat (map h ps)"
  using assms
proof (induction ps)
  case Nil
  then show ?case by simp
next
  case (Cons p ps)
  from Cons.prems [of p] obtain ys where ys: "F p = Inr ys" "map g ys = h p" by auto
  from Cons.IH Cons.prems obtain paths where
    "flat (map F ps) = Inr paths" "map g paths = concat (map h ps)"
    by auto
  with ys show ?case by simp
qed

lemma split_colon_childBasePath:
  assumes "CHR '':'' \<notin> set k"
  shows "split_colon (childBasePath base k) = base_segs base @ [k]"
  using assms
  by (auto simp: childBasePath_def base_segs_def split_colon_append split_colon_single
      split: option.splits)

lemma base_segs_childBasePath:
  assumes "CHR '':'' \<notin> set k" and "k \<noteq> []"
  shows "base_segs (Some (childBasePath base k)) = base_segs base @ [k]"
proof -
  from assms(2) have "childBasePath base k \<noteq> []"
    by (auto simp: childBasePath_def split: option.splits)
  then show ?thesis
    using split_colon_childBasePath [OF assms(1), of base] by (simp add: base_segs_def)
qed

lemma deepCreatingPathFromJSONObject_plain:
  "plain_object v \<Longrightarrow>
    \<exists>paths. deepCreatingPathFromJSONObject base v = Inr paths
      \<and> map (\<lambda>p. (split_colon (fst p), snd p)) paths
          = map (\<lambda>q. (base_segs base @ fst q, snd q)) (tree_paths v)"
proof (induction v arbitrary: base rule: with_defaultPolicy.induct)
  case (1 ps)
  let ?F = "\<lambda>entry.
                  if typeof (snd entry) \<noteq> ''object''
                  then Inr [(childBasePath base (fst entry), snd entry)]
                  else deepCreatingPathFromJSONObject
                         (Some (childBasePath base (fst entry))) (snd entry)"
  let ?h = "\<lambda>p. map (\<lambda>q. (base_segs base @ fst q, snd q))
      (if typeof (snd p) \<noteq> ''object'' then [([fst p], snd p)]
       else map (\<lambda>q. (fst p # fst q, snd q)) (tree_paths (snd p)))"
  have "\<exists>ys. ?F p = Inr ys \<and> map (\<lambda>p. (split_colon (fst p), snd p)) ys = ?h p"
    if "p \<in> set ps" for p
  proof -
    from that "1.prems" have k: "plain_key (fst p)"
      and x: "typeof (snd p) \<noteq> ''object'' \<or> plain_object (snd p)"
      by (auto simp: list_all_iff)
    then have nc: "CHR '':'' \<notin> set (fst p)" and ne: "fst p \<noteq> []"
      by (simp_all add: plain_key_def)
    show ?thesis
    proof (cases "typeof (snd p) \<noteq> ''object''")
      case True
      then show ?thesis by (simp add: split_colon_childBasePath [OF nc])
    next
      case False
      with x have "plain_object (snd p)" by simp
      from "1.IH" [OF that this, of "Some (childBasePath base (fst p))"]
      show ?thesis
        using False by (auto simp: base_segs_childBasePath [OF nc ne])
    qed
  qed
  from flat_map_Inr [of ps ?F "\<lambda>p. (split_colon (fst p), snd p)" ?h, OF this]
  show ?case
    by (subst deepCreatingPathFromJSONObject.simps) (simp add: map_concat comp_def)
qed simp_all

lemma allowedToWrite_set_prop:
  "k \<noteq> ''defaultPolicy'' \<Longrightarrow> allowedToWrite (set_prop s k v) k' = allowedToWrite s k'"
  by (simp add: allowedToWrite_def getAbilityMetadata_def get_set_prop metadata_set_prop
      split: option.splits)

lemma map_paths_under_key:
  assumes "get s k = VStore m ps" and "allowedToWrite s k" and "\<not> inherited k"
    and "k \<noteq> ''defaultPolicy''" and "\<forall>q \<in> set qs. fst q \<noteq> []"
  shows "map_paths (\<lambda>s' q. deepWriting s' (fst q) (snd q)) s (map (\<lambda>q. (k # fst q, snd q)) qs) =
    (case map_paths (\<lambda>s' q. deepWriting s' (fst q) (snd q)) \<lparr>metadata = m, props = ps\<rparr> qs of
       (c, r) \<Rightarrow> (set_prop s k (Store_val c), r))"
  using assms
proof (induction qs arbitrary: s m ps)
  case Nil
  then show ?case by (simp add: Store_val_def set_prop_same get_Store_map_of)
next
  case (Cons q qs)
  obtain c r where d: "deepWriting \<lparr>metadata = m, props = ps\<rparr> (fst q) (snd q) = (c, r)"
    by (cases "deepWriting \<lparr>metadata = m, props = ps\<rparr> (fst q) (snd q)") auto
  from Cons.prems have "fst q \<noteq> []" by simp
  with Cons.prems d
  have w: "deepWriting s (k # fst q) (snd q) = (set_prop s k (Store_val c), r)"
    by (subst deepWriting_Cons) simp
  show ?case
  proof (cases r)
    case (Inl e)
    with w d show ?thesis by simp
  next
    case (Inr y)
    let ?s1 = "set_prop s k (Store_val c)"
    have "get ?s1 k = VStore (metadata c) (props c)"
      by (simp add: get_set_prop Store_val_def)
    moreover have "allowedToWrite ?s1 k"
      using Cons.prems by (simp add: allowedToWrite_set_prop)
    ultimately have "map_paths (\<lambda>s' q. deepWriting s' (fst q) (snd q)) ?s1
        (map (\<lambda>q. (k # fst q, snd q)) qs) =
      (case map_paths (\<lambda>s' q. deepWriting s' (fst q) (snd q)) c qs of
         (c', r') \<Rightarrow> (set_prop ?s1 k (Store_val c'), r'))"
      using Cons.IH [of ?s1 "metadata c" "props c"] Cons.prems by (simp add: Store_eta)
    with w d Inr show ?thesis
      by (simp add: set_prop_set_prop_same split: prod.splits sum.splits)
  qed
qed

lemma map_paths_under_new_key:
  assumes "\<not> truthy (get s k)" and "allowedToWrite s k" and "\<not> inherited k"
    and "k \<noteq> ''defaultPolicy''" and "\<forall>q \<in> set qs. fst q \<noteq> []" and "qs \<noteq> []"
  shows "map_paths (\<lambda>s' q. deepWriting s' (fst q) (snd q)) s (map (\<lambda>q. (k # fst q, snd q)) qs) =
    (case map_paths (\<lambda>s' q. deepWriting s' (fst q) (snd q)) new_Store qs of
       (c, r) \<Rightarrow> (set_prop s k (Store_val c), r))"
proof -
  let ?s0 = "set_prop s k (Store_val new_Store)"
  from assms(6) obtain q qs' where qs: "qs = q # qs'" by (cases qs) auto
  have g0: "get ?s0 k = VStore (metadata new_Store) (props new_Store)"
    by (simp add: get_set_prop Store_val_def)
  have a0: "allowedToWrite ?s0 k" using assms by (simp add: allowedToWrite_set_prop)
  have "fst q \<noteq> []" using assms(5) qs by simp
  then have "deepWriting s (k # fst q) (snd q) = deepWriting ?s0 (k # fst q) (snd q)"
    using assms a0 g0
    by (subst (1 2) deepWriting_Cons) (simp add: set_prop_set_prop_same)
  then have "map_paths (\<lambda>s' q. deepWriting s' (fst q) (snd q)) s (map (\<lambda>q. (k # fst q, snd q)) qs)
    = map_paths (\<lambda>s' q. deepWriting s' (fst q) (snd q)) ?s0 (map (\<lambda>q. (k # fst q, snd q)) qs)"
    by (simp add: qs)
  also have "\<dots> = (case map_paths (\<lambda>s' q. deepWriting s' (fst q) (snd q)) new_Store qs of
       (c, r) \<Rightarrow> (set_prop ?s0 k (Store_val c), r))"
    using map_paths_under_key [OF g0 a0 assms(3,4,5)] by (simp add: Store_eta)
  finally show ?thesis by (simp add: set_prop_set_prop_same)
qed

lemma tree_paths_fst_not_Nil: "q \<in> set (tree_paths v) \<Longrightarrow> fst q \<noteq> []"
  by (induction v rule: tree_paths.induct) (auto split: if_splits)

lemma tree_paths_not_Nil: "plain_object v \<Longrightarrow> v \<noteq> VObj [] \<Longrightarrow> tree_paths v \<noteq> []"
proof (induction v rule: with_defaultPolicy.induct)
  case (1 ps)
  then obtain p ps' where ps: "ps = p # ps'" by (cases ps) auto
  show ?case
  proof (cases "typeof (snd p) \<noteq> ''object''")
    case True
    with ps show ?thesis by simp
  next
    case False
    with "1.prems" ps have "snd p \<noteq> VObj []" "plain_object (snd p)" by auto
    with "1.IH" [of p] ps have "tree_paths (snd p) \<noteq> []" by simp
    with ps False show ?thesis by simp
  qed
qed simp_all

lemma obj_set_new:
  "map_of ps k = None \<Longrightarrow> array_index k = None \<Longrightarrow> obj_set ps k v = ps @ [(k, v)]"
  by (simp add: obj_set_def map_of_None_iff_has_key)

lemma set_prop_new:
  "map_of (props s) k = None \<Longrightarrow> array_index k = None
    \<Longrightarrow> set_prop s k v = s\<lparr>props := props s @ [(k, v)]\<rparr>"
  by (simp add: set_prop_def obj_set_new)

lemma allowedToWrite_open:
  "metadata s = [] \<Longrightarrow> get s ''defaultPolicy'' = VStr ''rw'' \<Longrightarrow> allowedToWrite s k"
  by (simp add: allowedToWrite_def getAbilityMetadata_def canWrite_def)

lemma allowedToRead_open:
  "metadata s = [] \<Longrightarrow> get s ''defaultPolicy'' = VStr ''rw'' \<Longrightarrow> allowedToRead s k"
  by (simp add: allowedToRead_def getAbilityMetadata_def canRead_def)

lemma get_props_append_other:
  "k' \<noteq> k \<Longrightarrow> get (s\<lparr>props := props s @ [(k, v)]\<rparr>) k' = get s k'"
  by (auto simp: get_def obj_get_def map_add_def split: option.splits)

lemma store_of_leaf: "typeof x \<noteq> ''object'' \<Longrightarrow> store_of x = x"
  by (cases x) auto

lemma write_entry_paths:
  assumes ih: "\<And>s. typeof x = ''object'' \<Longrightarrow> metadata s = []
        \<Longrightarrow> get s ''defaultPolicy'' = VStr ''rw''
        \<Longrightarrow> props s = [(''defaultPolicy'', VStr ''rw'')]
        \<Longrightarrow> \<exists>rs. map_paths (\<lambda>s' q. deepWriting s' (fst q) (snd q)) s (tree_paths x)
              = (s\<lparr>props := props s @ tl (case store_of x of VStore m ps \<Rightarrow> ps | _ \<Rightarrow> [])\<rparr>, Inr rs)"
    and k: "plain_key k"
    and x: "typeof x \<noteq> ''object'' \<or> x \<noteq> VObj [] \<and> plain_object x"
    and s: "metadata s = []" "get s ''defaultPolicy'' = VStr ''rw''" "map_of (props s) k = None"
  shows "\<exists>rs. map_paths (\<lambda>s' q. deepWriting s' (fst q) (snd q)) s
            (if typeof x \<noteq> ''object'' then [([k], x)]
             else map (\<lambda>q. (k # fst q, snd q)) (tree_paths x))
          = (s\<lparr>props := props s @ [(k, store_of x)]\<rparr>, Inr rs)"
proof (cases "typeof x \<noteq> ''object''")
  case True
  from k s have "deepWriting s [k] x = (set_prop s k x, Inr x)"
    by (subst deepWriting_Cons) (simp add: allowedToWrite_open plain_key_def)
  with True k s show ?thesis
    by (simp add: set_prop_new plain_key_def store_of_leaf)
next
  case False
  with x have nz: "x \<noteq> VObj []" and po: "plain_object x" by auto
  then obtain cs where xc: "x = VObj cs" by (cases x) auto
  have "\<not> truthy (get s k)" using s by (simp add: get_absent)
  moreover have "\<forall>q \<in> set (tree_paths x). fst q \<noteq> []"
    by (simp add: tree_paths_fst_not_Nil)
  ultimately have "map_paths (\<lambda>s' q. deepWriting s' (fst q) (snd q)) s
      (map (\<lambda>q. (k # fst q, snd q)) (tree_paths x)) =
    (case map_paths (\<lambda>s' q. deepWriting s' (fst q) (snd q)) new_Store (tree_paths x) of
       (c, r) \<Rightarrow> (set_prop s k (Store_val c), r))"
    using k s tree_paths_not_Nil [OF po nz]
    by (intro map_paths_under_new_key) (simp_all add: allowedToWrite_open plain_key_def)
  moreover from ih [of new_Store] False obtain rs where
    "map_paths (\<lambda>s' q. deepWriting s' (fst q) (snd q)) new_Store (tree_paths x)
      = (new_Store\<lparr>props := props new_Store
            @ tl (case store_of x of VStore m ps \<Rightarrow> ps | _ \<Rightarrow> [])\<rparr>, Inr rs)"
    by (auto simp: new_Store_def get_def obj_get_def)
  ultimately show ?thesis
    using False k s xc
    by (simp add: set_prop_new plain_key_def Store_val_def new_Store_def)
qed

lemma write_entries_list:
  assumes ih: "\<And>p s. p \<in> set ps \<Longrightarrow> typeof (snd p) = ''object'' \<Longrightarrow> metadata s = []
        \<Longrightarrow> get s ''defaultPolicy'' = VStr ''rw''
        \<Longrightarrow> props s = [(''defaultPolicy'', VStr ''rw'')]
        \<Longrightarrow> \<exists>rs. map_paths (\<lambda>s' q. deepWriting s' (fst q) (snd q)) s (tree_paths (snd p))
              = (s\<lparr>props := props s
                    @ tl (case store_of (snd p) of VStore m ps \<Rightarrow> ps | _ \<Rightarrow> [])\<rparr>, Inr rs)"
    and "distinct (map fst ps)"
    and "\<forall>p \<in> set ps. plain_key (fst p)
          \<and> (typeof (snd p) \<noteq> ''object'' \<or> snd p \<noteq> VObj [] \<and> plain_object (snd p))"
    and "metadata s = []" and "get s ''defaultPolicy'' = VStr ''rw''"
    and "\<forall>p \<in> set ps. map_of (props s) (fst p) = None"
  shows "\<exists>rs. map_paths (\<lambda>s' q. deepWriting s' (fst q) (snd q)) s
            (concat (map (\<lambda>p. if typeof (snd p) \<noteq> ''object'' then [([fst p], snd p)]
                       else map (\<lambda>q. (fst p # fst q, snd q)) (tree_paths (snd p))) ps))
          = (s\<lparr>props := props s @ map (\<lambda>p. (fst p, store_of (snd p))) ps\<rparr>, Inr rs)"
  using assms
proof (induction ps arbitrary: s)
  case Nil
  then show ?case by simp
next
  case (Cons p ps)
  let ?s1 = "s\<lparr>props := props s @ [(fst p, store_of (snd p))]\<rparr>"
  let ?E = "\<lambda>p. if typeof (snd p) \<noteq> ''object'' then [([fst p], snd p)]
                       else map (\<lambda>q. (fst p # fst q, snd q)) (tree_paths (snd p))"
  have k: "plain_key (fst p)" using Cons.prems(3) by simp
  have x: "typeof (snd p) \<noteq> ''object'' \<or> snd p \<noteq> VObj [] \<and> plain_object (snd p)"
    using Cons.prems(3) by simp
  have f: "map_of (props s) (fst p) = None" using Cons.prems(6) by simp
  have ih1: "\<exists>rs. map_paths (\<lambda>s' q. deepWriting s' (fst q) (snd q)) s' (tree_paths (snd p))
              = (s'\<lparr>props := props s'
                    @ tl (case store_of (snd p) of VStore m ps \<Rightarrow> ps | _ \<Rightarrow> [])\<rparr>, Inr rs)"
    if "typeof (snd p) = ''object''" "metadata s' = []" "get s' ''defaultPolicy'' = VStr ''rw''"
      "props s' = [(''defaultPolicy'', VStr ''rw'')]" for s'
    using Cons.prems(1) [of p s'] that by simp
  from write_entry_paths [of "snd p" "fst p" s, OF ih1 k x Cons.prems(4,5) f]
  obtain rs1 where 1: "map_paths (\<lambda>s' q. deepWriting s' (fst q) (snd q)) s (?E p) = (?s1, Inr rs1)"
    by blast
  have m1: "metadata ?s1 = []" using Cons.prems(4) by simp
  have "''defaultPolicy'' \<noteq> fst p" using k by (auto simp: plain_key_def)
  then have g1: "get ?s1 ''defaultPolicy'' = VStr ''rw''"
    using Cons.prems(5) by (simp add: get_props_append_other)
  have f1: "\<forall>q \<in> set ps. map_of (props ?s1) (fst q) = None"
  proof
    fix q
    assume q: "q \<in> set ps"
    have "fst p \<notin> fst ` set ps" using Cons.prems(2) by simp
    with q have "fst q \<noteq> fst p" by (metis imageI)
    moreover from q Cons.prems(6) have "map_of (props s) (fst q) = None" by simp
    ultimately show "map_of (props ?s1) (fst q) = None" by (simp add: map_add_def)
  qed
  have d1: "distinct (map fst ps)" using Cons.prems(2) by simp
  have a1: "\<forall>p \<in> set ps. plain_key (fst p)
          \<and> (typeof (snd p) \<noteq> ''object'' \<or> snd p \<noteq> VObj [] \<and> plain_object (snd p))"
    using Cons.prems(3) by simp
  have ih2: "\<exists>rs. map_paths (\<lambda>s' q. deepWriting s' (fst q) (snd q)) s' (tree_paths (snd q))
              = (s'\<lparr>props := props s'
                    @ tl (case store_of (snd q) of VStore m ps \<Rightarrow> ps | _ \<Rightarrow> [])\<rparr>, Inr rs)"
    if "q \<in> set ps" "typeof (snd q) = ''object''" "metadata s' = []"
      "get s' ''defaultPolicy'' = VStr ''rw''" "props s' = [(''defaultPolicy'', VStr ''rw'')]"
    for q s'
    using Cons.prems(1) [of q s'] that by simp
  from Cons.IH [of ?s1, OF ih2 d1 a1 m1 g1 f1]
  obtain rs2 where 2: "map_paths (\<lambda>s' q. deepWriting s' (fst q) (snd q)) ?s1
            (concat (map ?E ps))
          = (?s1\<lparr>props := props ?s1 @ map (\<lambda>p. (fst p, store_of (snd p))) ps\<rparr>, Inr rs2)"
    by blast
  have "map_paths (\<lambda>s' q. deepWriting s' (fst q) (snd q)) s (concat (map ?E (p # ps)))
      = (?s1\<lparr>props := props ?s1 @ map (\<lambda>p. (fst p, store_of (snd p))) ps\<rparr>, Inr (rs1 @ rs2))"
    using 1 2 by (simp only: list.map concat.simps map_paths_append prod.case sum.case)
  then show ?case by auto
qed

lemma write_tree_paths:
  "plain_object x \<Longrightarrow> typeof x = ''object'' \<Longrightarrow> metadata s = []
    \<Longrightarrow> get s ''defaultPolicy'' = VStr ''rw''
    \<Longrightarrow> props s = [(''defaultPolicy'', VStr ''rw'')]
    \<Longrightarrow> \<exists>rs. map_paths (\<lambda>s' q. deepWriting s' (fst q) (snd q)) s (tree_paths x)
          = (s\<lparr>props := props s @ tl (case store_of x of VStore m ps \<Rightarrow> ps | _ \<Rightarrow> [])\<rparr>, Inr rs)"
proof (induction x arbitrary: s rule: with_defaultPolicy.induct)
  case (1 ps)
  have d: "distinct (map fst ps)" using "1.prems"(1) by simp
  have a: "\<forall>p \<in> set ps. plain_key (fst p)
          \<and> (typeof (snd p) \<noteq> ''object'' \<or> snd p \<noteq> VObj [] \<and> plain_object (snd p))"
    using "1.prems"(1) by (simp add: list_all_iff)
  have ih: "\<exists>rs. map_paths (\<lambda>s' q. deepWriting s' (fst q) (snd q)) s' (tree_paths (snd p))
              = (s'\<lparr>props := props s'
                    @ tl (case store_of (snd p) of VStore m ps \<Rightarrow> ps | _ \<Rightarrow> [])\<rparr>, Inr rs)"
    if "p \<in> set ps" "typeof (snd p) = ''object''" "metadata s' = []"
      "get s' ''defaultPolicy'' = VStr ''rw''" "props s' = [(''defaultPolicy'', VStr ''rw'')]"
    for p s'
  proof -
    from that(1,2) a have "plain_object (snd p)" by blast
    then show ?thesis using that by (intro "1.IH") 
  qed
  have fresh: "\<forall>p \<in> set ps. map_of (props s) (fst p) = None"
    using a "1.prems"(5) by (auto simp: plain_key_def)
  have "\<exists>rs. map_paths (\<lambda>s' q. deepWriting s' (fst q) (snd q)) s
            (concat (map (\<lambda>p. if typeof (snd p) \<noteq> ''object'' then [([fst p], snd p)]
                       else map (\<lambda>q. (fst p # fst q, snd q)) (tree_paths (snd p))) ps))
          = (s\<lparr>props := props s @ map (\<lambda>p. (fst p, store_of (snd p))) ps\<rparr>, Inr rs)"
    using ih d a "1.prems"(3,4) fresh by (rule write_entries_list)
  then show ?case by simp
qed simp_all

lemma foldl_obj_set_append:
  assumes "distinct (map fst acc)" and "\<forall>p \<in> set acc. array_index (fst p) = None"
    and "\<forall>p \<in> set acc. map_of init (fst p) = None"
  shows "foldl (\<lambda>a p. obj_set a (fst p) (snd p)) init acc = init @ acc"
  using assms
proof (induction acc arbitrary: init)
  case Nil
  then show ?case by simp
next
  case (Cons p acc)
  have "obj_set init (fst p) (snd p) = init @ [p]"
    using Cons.prems by (simp add: obj_set_new)
  moreover have "\<forall>q \<in> set acc. map_of (init @ [p]) (fst q) = None"
  proof
    fix q
    assume q: "q \<in> set acc"
    have "fst p \<notin> fst ` set acc" using Cons.prems(1) by simp
    with q have "fst q \<noteq> fst p" by (metis imageI)
    moreover from q Cons.prems(3) have "map_of init (fst q) = None" by simp
    ultimately show "map_of (init @ [p]) (fst q) = None"
      by (cases p) (simp add: map_add_def)
  qed
  ultimately show ?case
    using Cons.IH [of "init @ [p]"] Cons.prems by simp
qed

lemma spread_single:
  assumes "distinct (map fst acc)" and "\<forall>p \<in> set acc. array_index (fst p) = None"
    and "map_of acc k = None" and "array_index k = None"
  shows "spread acc [(k, v)] = acc @ [(k, v)]"
  using assms foldl_obj_set_append [of acc "[]"]
  by (simp add: spread_def obj_set_new)

lemma entriesOrEmptyObject_open:
  assumes "metadata s = []" and "get s ''defaultPolicy'' = VStr ''rw''"
  shows "entriesOrEmptyObject s k v =
    [(k, case v of VStore m ps \<Rightarrow> VObj (entries \<lparr>metadata = m, props = ps\<rparr>) | _ \<Rightarrow> v)]"
  using allowedToRead_open [OF assms, of k]
  by (simp add: entriesOrEmptyObject.simps split: val.splits)

lemma entries_fold_open:
  assumes "metadata s = []" and "get s ''defaultPolicy'' = VStr ''rw''"
    and "distinct (map fst (acc @ es))" and "\<forall>p \<in> set (acc @ es). array_index (fst p) = None"
  shows "foldl (\<lambda>acc entry. spread acc (entriesOrEmptyObject s (fst entry) (snd entry))) acc es
    = acc @ map (\<lambda>p. (fst p, case snd p of
          VStore m ps \<Rightarrow> VObj (entries \<lparr>metadata = m, props = ps\<rparr>) | _ \<Rightarrow> snd p)) es"
  using assms(3,4)
proof (induction es arbitrary: acc)
  case Nil
  then show ?case by simp
next
  case (Cons e es)
  let ?v = "case snd e of VStore m ps \<Rightarrow> VObj (entries \<lparr>metadata = m, props = ps\<rparr>) | _ \<Rightarrow> snd e"
  have "map_of acc (fst e) = None"
    using Cons.prems(1) by (auto simp: map_of_eq_None_iff)
  then have "spread acc (entriesOrEmptyObject s (fst e) (snd e)) = acc @ [(fst e, ?v)]"
    using Cons.prems by (simp add: entriesOrEmptyObject_open [OF assms(1,2)] spread_single)
  moreover have "distinct (map fst ((acc @ [(fst e, ?v)]) @ es))"
    using Cons.prems(1) by auto
  moreover have "\<forall>p \<in> set ((acc @ [(fst e, ?v)]) @ es). array_index (fst p) = None"
    using Cons.prems(2) by auto
  ultimately show ?case
    using Cons.IH [of "acc @ [(fst e, ?v)]"] by simp
qed

lemma entries_open:
  assumes "metadata s = []" and "get s ''defaultPolicy'' = VStr ''rw''"
    and "distinct (map fst (props s))" and "\<forall>p \<in> set (props s). array_index (fst p) = None"
  shows "entries s = map (\<lambda>p. (fst p, case snd p of
          VStore m ps \<Rightarrow> VObj (entries \<lparr>metadata = m, props = ps\<rparr>) | _ \<Rightarrow> snd p)) (props s)"
  using entries_fold_open [OF assms(1,2), of "[]" "props s"] assms(3,4)
  by (simp add: entries.simps)

lemma array_index_defaultPolicy: "array_index ''defaultPolicy'' = None"
  by (simp add: array_index_def is_digit_def)

lemma entries_store_of:
  "plain_object x \<Longrightarrow> store_of x = VStore m qs
    \<Longrightarrow> VObj (entries \<lparr>metadata = m, props = qs\<rparr>) = with_defaultPolicy x"
proof (induction x arbitrary: m qs rule: with_defaultPolicy.induct)
  case (1 ps)
  let ?s = "\<lparr>metadata = m, props = qs\<rparr>"
  from "1.prems"(2) have m: "m = []"
    and qs: "qs = (''defaultPolicy'', VStr ''rw'') # map (\<lambda>p. (fst p, store_of (snd p))) ps"
    by simp_all
  have a: "\<forall>p \<in> set ps. plain_key (fst p)
          \<and> (typeof (snd p) \<noteq> ''object'' \<or> snd p \<noteq> VObj [] \<and> plain_object (snd p))"
    using "1.prems"(1) by (simp add: list_all_iff)
  have d: "distinct (map fst qs)"
    using "1.prems"(1) a by (auto simp: qs comp_def plain_key_def)
  have i: "\<forall>p \<in> set qs. array_index (fst p) = None"
    using a by (auto simp: qs array_index_defaultPolicy plain_key_def)
  have g: "get ?s ''defaultPolicy'' = VStr ''rw''"
    by (simp add: qs get_def obj_get_def)
  have snap: "(case store_of (snd p) of
        VStore m ps \<Rightarrow> VObj (entries \<lparr>metadata = m, props = ps\<rparr>) | _ \<Rightarrow> store_of (snd p))
      = with_defaultPolicy (snd p)" if "p \<in> set ps" for p
  proof (cases "typeof (snd p) \<noteq> ''object''")
    case True
    then show ?thesis by (cases "snd p") auto
  next
    case False
    with that a have po: "plain_object (snd p)" by blast
    then obtain cs where "snd p = VObj cs" by (cases "snd p") auto
    then obtain m' qs' where "store_of (snd p) = VStore m' qs'" by simp
    with "1.IH" [OF that po this] show ?thesis by simp
  qed
  have "entries ?s = map (\<lambda>p. (fst p, case snd p of
          VStore m ps \<Rightarrow> VObj (entries \<lparr>metadata = m, props = ps\<rparr>) | _ \<Rightarrow> snd p)) qs"
    using entries_open [of ?s] m g d i by simp
  also have "\<dots> = (''defaultPolicy'', VStr ''rw'')
      # map (\<lambda>p. (fst p, with_defaultPolicy (snd p))) ps"
    using snap by (simp add: qs comp_def cong: val.case_cong)
  finally show ?case by simp
qed simp_all

section \<open>The claims\<close>

text \<open>
  C1 (as the code has it). On a new Store, for every plain object \<open>X\<close>,
  \<^verbatim>\<open>writeEntries(X)\<close> succeeds and \<^verbatim>\<open>entries()\<close> then gives \<open>X\<close> with the entry
  \<^verbatim>\<open>defaultPolicy: "rw"\<close> added at every level: every nested object has become a Store,
  and \<^verbatim>\<open>entries\<close> lists the \<^verbatim>\<open>defaultPolicy\<close> property of each Store.
\<close>

theorem writeEntries_entries_adds_defaultPolicy:
  assumes "plain_object X"
  shows "snd (writeEntries new_Store X) = Inr ()
    \<and> VObj (entries (fst (writeEntries new_Store X))) = with_defaultPolicy X"
proof -
  from assms obtain ps where X: "X = VObj ps" by (cases X) auto
  from deepCreatingPathFromJSONObject_plain [OF assms, of None] obtain paths where
    f: "deepCreatingPathFromJSONObject None X = Inr paths"
    and p: "map (\<lambda>p. (split_colon (fst p), snd p)) paths = tree_paths X"
    by (auto simp: base_segs_def)
  have "map_paths (\<lambda>s' p. deepWriting s' (split_colon (fst p)) (snd p)) new_Store paths
      = map_paths (\<lambda>s' q. deepWriting s' (fst q) (snd q)) new_Store (tree_paths X)"
    unfolding p [symmetric] by (simp add: map_paths_map)
  moreover from write_tree_paths [OF assms, of new_Store] obtain rs where
    "map_paths (\<lambda>s' q. deepWriting s' (fst q) (snd q)) new_Store (tree_paths X)
      = (new_Store\<lparr>props := props new_Store
            @ tl (case store_of X of VStore m ps \<Rightarrow> ps | _ \<Rightarrow> [])\<rparr>, Inr rs)"
    by (auto simp: X new_Store_def get_def obj_get_def)
  ultimately have "writeEntries new_Store X
      = (new_Store\<lparr>props := props new_Store
            @ tl (case store_of X of VStore m ps \<Rightarrow> ps | _ \<Rightarrow> [])\<rparr>, Inr ())"
    by (simp add: writeEntries_batch [OF f])
  then have w: "writeEntries new_Store X
      = (\<lparr>metadata = [], props = (''defaultPolicy'', VStr ''rw'')
            # map (\<lambda>p. (fst p, store_of (snd p))) ps\<rparr>, Inr ())"
    by (simp add: X new_Store_def)
  have "store_of X = VStore [] ((''defaultPolicy'', VStr ''rw'')
            # map (\<lambda>p. (fst p, store_of (snd p))) ps)"
    by (simp add: X)
  from entries_store_of [OF assms this] w show ?thesis by simp
qed

text \<open>\<^verbatim>\<open>{x: {y: 5}, z: true}\<close>.\<close>

theorem writeEntries_entries_adds_defaultPolicy_witness:
  "plain_object (VObj [(''x'', VObj [(''y'', VNum 5)]), (''z'', VBool True)])
   \<and> snd (writeEntries new_Store (VObj [(''x'', VObj [(''y'', VNum 5)]), (''z'', VBool True)]))
       = Inr ()
   \<and> VObj (entries (fst (writeEntries new_Store
         (VObj [(''x'', VObj [(''y'', VNum 5)]), (''z'', VBool True)]))))
       = VObj [(''defaultPolicy'', VStr ''rw''),
               (''x'', VObj [(''defaultPolicy'', VStr ''rw''), (''y'', VNum 5)]),
               (''z'', VBool True)]"
proof -
  have p: "plain_object (VObj [(''x'', VObj [(''y'', VNum 5)]), (''z'', VBool True)])"
    by code_simp
  from writeEntries_entries_adds_defaultPolicy [OF p] p show ?thesis by simp
qed

text \<open>
  The claim as the specification has it fails on \<^verbatim>\<open>{a: 1}\<close> and a new Store, all of
  whose keys are read-write: the entries hold the key \<^verbatim>\<open>defaultPolicy\<close>, which the object
  does not have.
\<close>

theorem writeEntries_entries_roundtrip_counterexample:
  "snd (writeEntries new_Store (VObj [(''a'', VNum 1)])) = Inr ()
   \<and> entries (fst (writeEntries new_Store (VObj [(''a'', VNum 1)])))
       = [(''defaultPolicy'', VStr ''rw''), (''a'', VNum 1)]
   \<and> map_of (entries (fst (writeEntries new_Store (VObj [(''a'', VNum 1)])))) ''defaultPolicy''
       = Some (VStr ''rw'')
   \<and> map_of [(''a'', VNum 1)] ''defaultPolicy'' = None
   \<and> VObj (entries (fst (writeEntries new_Store (VObj [(''a'', VNum 1)]))))
       \<noteq> VObj [(''a'', VNum 1)]"
proof -
  have 1: "snd (writeEntries new_Store (VObj [(''a'', VNum 1)])) = Inr ()" by code_simp
  have 2: "entries (fst (writeEntries new_Store (VObj [(''a'', VNum 1)])))
       = [(''defaultPolicy'', VStr ''rw''), (''a'', VNum 1)]"
    by code_simp
  show ?thesis by (simp add: 1 2)
qed

text \<open>
  C2 (as the code has it). \<^verbatim>\<open>write\<close> decides on \<^verbatim>\<open>typeof value === "object"\<close>. A
  value of another type (a string, a number, a boolean, \<^verbatim>\<open>undefined\<close>, a function) is
  written by one deep write at the path. A value of type object, which an array and a
  Store are as well as a plain object, is flattened into pairs of a full path and a value
  that is not of type object, and when the flattening succeeds each pair is written by
  one deep write, in order, up to the first that fails; the result is then the value that
  was given.
\<close>

theorem write_flattens_objects_arrays_and_stores:
  "(typeof v \<noteq> ''object'' \<longrightarrow> write_store s path v = deepWriting s (split_colon path) v)
   \<and> (typeof v = ''object'' \<and> deepCreatingPathFromJSONObject (Some path) v = Inr paths \<longrightarrow>
        (\<forall>p \<in> set paths. typeof (snd p) \<noteq> ''object'')
        \<and> write_store s path v =
          (case map_paths (\<lambda>s' p. deepWriting s' (split_colon (fst p)) (snd p)) s paths of
             (s', Inl e) \<Rightarrow> (s', Inl e)
           | (s', Inr rs) \<Rightarrow> (s', Inr v)))
   \<and> typeof (VObj ps) = ''object'' \<and> typeof (VArr xs) = ''object''
   \<and> typeof (VStore m qs) = ''object'' \<and> typeof (VFun f) \<noteq> ''object''"
  using write_store_batch [of v path paths s] deepCreatingPathFromJSONObject_leaves [of "Some path" v paths]
  by (auto simp: write_store_leaf)

text \<open>
  A number is written as it is; the array \<^verbatim>\<open>[5]\<close> written at \<^verbatim>\<open>a\<close> becomes the pair
  \<^verbatim>\<open>("a:0", 5)\<close>, hence a Store at \<^verbatim>\<open>a\<close> with the property \<^verbatim>\<open>0\<close>.
\<close>

theorem write_flattens_objects_arrays_and_stores_witness:
  "typeof (VNum 1) \<noteq> ''object''
   \<and> write_store new_Store ''a'' (VNum 1) = deepWriting new_Store (split_colon ''a'') (VNum 1)
   \<and> typeof (VArr [VNum 5]) = ''object''
   \<and> deepCreatingPathFromJSONObject (Some ''a'') (VArr [VNum 5]) = Inr [(''a:0'', VNum 5)]
   \<and> write_store new_Store ''a'' (VArr [VNum 5]) =
       (case map_paths (\<lambda>s' p. deepWriting s' (split_colon (fst p)) (snd p)) new_Store
               [(''a:0'', VNum 5)] of
          (s', Inl e) \<Rightarrow> (s', Inl e)
        | (s', Inr rs) \<Rightarrow> (s', Inr (VArr [VNum 5])))
   \<and> write_store new_Store ''a'' (VArr [VNum 5]) =
       (set_prop new_Store ''a'' (Store_val (set_prop new_Store ''0'' (VNum 5))),
        Inr (VArr [VNum 5]))"
proof -
  have 1: "typeof (VNum 1) \<noteq> ''object''" by simp
  have 2: "typeof (VArr [VNum 5]) = ''object''" by simp
  have 3: "deepCreatingPathFromJSONObject (Some ''a'') (VArr [VNum 5]) = Inr [(''a:0'', VNum 5)]"
    by code_simp
  have 4: "write_store new_Store ''a'' (VArr [VNum 5]) =
       (set_prop new_Store ''a'' (Store_val (set_prop new_Store ''0'' (VNum 5))),
        Inr (VArr [VNum 5]))"
    by code_simp
  from write_flattens_objects_arrays_and_stores [of "VNum 1" new_Store "''a''"]
    write_flattens_objects_arrays_and_stores [of "VArr [VNum 5]" new_Store "''a''" "[(''a:0'', VNum 5)]"]
    1 2 3 4
  show ?thesis by simp
qed

text \<open>
  The claim as the specification has it fails on an array: \<^verbatim>\<open>write("a", [5])\<close> on a
  new Store is not the deep write of the array at \<^verbatim>\<open>a\<close>. The deep write would leave the
  array under \<^verbatim>\<open>a\<close>; \<^verbatim>\<open>write\<close> leaves a Store there.
\<close>

theorem write_array_is_not_a_single_deep_write_counterexample:
  "get (fst (deepWriting new_Store (split_colon ''a'') (VArr [VNum 5]))) ''a'' = VArr [VNum 5]
   \<and> get (fst (write_store new_Store ''a'' (VArr [VNum 5]))) ''a''
       = VStore [] [(''0'', VNum 5), (''defaultPolicy'', VStr ''rw'')]
   \<and> write_store new_Store ''a'' (VArr [VNum 5])
       \<noteq> deepWriting new_Store (split_colon ''a'') (VArr [VNum 5])"
proof -
  have 1: "get (fst (deepWriting new_Store (split_colon ''a'') (VArr [VNum 5]))) ''a''
      = VArr [VNum 5]"
    by code_simp
  have 2: "get (fst (write_store new_Store ''a'' (VArr [VNum 5]))) ''a''
       = VStore [] [(''0'', VNum 5), (''defaultPolicy'', VStr ''rw'')]"
    by code_simp
  from 1 2 have "write_store new_Store ''a'' (VArr [VNum 5])
       \<noteq> deepWriting new_Store (split_colon ''a'') (VArr [VNum 5])"
    by auto
  with 1 2 show ?thesis by simp
qed




















end
